theory Spec2Isabelle
  imports Main "HOL-Library.Multiset"
begin

section \<open>Python values, dictionaries and exceptions\<close>

text \<open>
  The values that travel through \<^verbatim>\<open>channels/generic/websockets.py\<close>: decoded JSON
  (null, booleans, integers, strings, arrays, objects) and the byte strings of binary
  frames. A Python dict keeps its keys in insertion order, so an object is an association
  list; floating-point numbers are not modelled.
\<close>

datatype pyval =
    PNone
  | PBool bool
  | PInt int
  | PStr string
  | PBytes string
  | PList "pyval list"
  | PDict "(string \<times> pyval) list"

type_synonym pydict = "(string \<times> pyval) list"

datatype error =
    ValueError string
  | KeyError string
  | TypeError string
  | AttributeError string
  | JSONDecodeError string

text \<open>
  The two exceptions Python itself raises in this module, with its messages:
  \<^verbatim>\<open>unhashable type: 'list'\<close> (or \<^verbatim>\<open>'dict'\<close>) and
  \<^verbatim>\<open>'NoneType' object has no attribute 'send'\<close>.
\<close>

definition unhashable_type :: "string \<Rightarrow> error" where
  "unhashable_type name = TypeError (''unhashable type: '' @ [CHR 0x27] @ name @ [CHR 0x27])"

definition none_has_no_send :: error where
  "none_has_no_send =
     AttributeError (CHR 0x27 # ''NoneType' object has no attribute 'send'' @ [CHR 0x27])"

text \<open>\<^verbatim>\<open>key in d\<close>, \<^verbatim>\<open>d[key]\<close> and \<^verbatim>\<open>d[key] = value\<close> on a dict with string keys.\<close>

definition dict_contains :: "pydict \<Rightarrow> string \<Rightarrow> bool" where
  "dict_contains d k = (map_of d k \<noteq> None)"

definition dict_getitem :: "pydict \<Rightarrow> string \<Rightarrow> error + pyval" where
  "dict_getitem d k = (case map_of d k of None \<Rightarrow> Inl (KeyError k) | Some v \<Rightarrow> Inr v)"

primrec dict_setitem :: "pydict \<Rightarrow> string \<Rightarrow> pyval \<Rightarrow> pydict" where
  "dict_setitem [] k v = [(k, v)]"
| "dict_setitem (p # ps) k v = (if fst p = k then (k, v) # ps else p # dict_setitem ps k v)"

text \<open>
  \<^verbatim>\<open>isinstance(v, dict)\<close>, and whether Python can hash a value: looking a list or a
  dict up in a dict raises \<^verbatim>\<open>TypeError\<close> before any key is compared.
\<close>

fun is_dict :: "pyval \<Rightarrow> bool" where
  "is_dict (PDict d) = True"
| "is_dict v = False"

fun hashable :: "pyval \<Rightarrow> bool" where
  "hashable (PList xs) = False"
| "hashable (PDict d) = False"
| "hashable v = True"

section \<open>Messages and effects\<close>

text \<open>
  Modelled from the spec: the \<^verbatim>\<open>Message\<close> class of \<^verbatim>\<open>channels.message\<close> is not among
  the sources. An event is \<^verbatim>\<open>{kind, path?, text?, bytes?, reply_sink}\<close>: the name of the
  channel it arrived on and a dict of content; \<^verbatim>\<open>key in message\<close> and \<^verbatim>\<open>message[key]\<close>
  read the content, and \<^verbatim>\<open>message.reply_channel\<close> is the reply sink the content carries
  (\<^verbatim>\<open>None\<close> when it carries none).
\<close>

record message =
  channel :: string
  content :: pydict

definition message_contains :: "message \<Rightarrow> string \<Rightarrow> bool" where
  "message_contains m k = dict_contains (content m) k"

definition message_getitem :: "message \<Rightarrow> string \<Rightarrow> error + pyval" where
  "message_getitem m k = dict_getitem (content m) k"

definition reply_channel :: "message \<Rightarrow> pyval" where
  "reply_channel m = (case map_of (content m) ''reply_channel'' of None \<Rightarrow> PNone | Some v \<Rightarrow> v)"

text \<open>
  What a method does to the outside world, in the order it does it: sends on a channel,
  calls into the group service, calls of the JSON library and calls of the callbacks a
  user overrides (\<^verbatim>\<open>connect\<close>, \<^verbatim>\<open>receive\<close>, \<^verbatim>\<open>disconnect\<close>, whose bodies are
  \<^verbatim>\<open>pass\<close> in these classes).
\<close>

datatype effect =
    ChannelSend pyval pydict
  | GroupAdd string pyval
  | GroupDiscard string pyval
  | GroupSend string pydict
  | JsonLoads pyval
  | UserConnect message pydict
  | UserReceive pyval pyval pydict
  | UserReceiveContent pyval pydict
  | UserDisconnect message pydict

text \<open>A method run: the effects performed, then the exception raised or the value returned.\<close>

type_synonym 'a run = "effect list \<times> (error + 'a)"

text \<open>
  \<^verbatim>\<open>message.reply_channel.send(frame)\<close>: an event that carries no reply channel has
  \<^verbatim>\<open>None\<close> there, and the attribute lookup on it raises before anything is sent.
\<close>

definition reply_channel_send :: "message \<Rightarrow> pydict \<Rightarrow> unit run" where
  "reply_channel_send msg frame =
     (if reply_channel msg = PNone then ([], Inl none_has_no_send)
      else ([ChannelSend (reply_channel msg) frame], Inr ()))"

section \<open>WebsocketDemultiplexer.receive\<close>

text \<open>
  \<^verbatim>\<open>stream in self.mapping\<close>. The mapping is the static whitelist of the class, from
  stream names to channel names, both strings. Python hashes the stream before it compares
  any key: a list or a dict raises \<^verbatim>\<open>TypeError\<close>, a string is looked up, and any other
  hashable value equals no string key.
\<close>

definition mapping_contains :: "(string \<times> string) list \<Rightarrow> pyval \<Rightarrow> error + bool" where
  "mapping_contains mapping stream =
     (case stream of
        PList xs \<Rightarrow> Inl (unhashable_type ''list'')
      | PDict d \<Rightarrow> Inl (unhashable_type ''dict'')
      | PStr s \<Rightarrow> Inr (map_of mapping s \<noteq> None)
      | _ \<Rightarrow> Inr False)"

definition mapping_getitem :: "(string \<times> string) list \<Rightarrow> pyval \<Rightarrow> error + string" where
  "mapping_getitem mapping stream =
     (case stream of
        PStr s \<Rightarrow> (case map_of mapping s of None \<Rightarrow> Inl (KeyError s) | Some c \<Rightarrow> Inr c)
      | _ \<Rightarrow> Inl (KeyError ''stream''))"

definition demux_receive :: "(string \<times> string) list \<Rightarrow> message \<Rightarrow> pyval \<Rightarrow> unit run" where
  "demux_receive mapping msg cont =
     (case cont of
        PDict d \<Rightarrow>
          if dict_contains d ''stream'' \<and> dict_contains d ''payload'' then
            (case dict_getitem d ''stream'' of
               Inl e \<Rightarrow> ([], Inl e)
             | Inr stream \<Rightarrow>
                (case mapping_contains mapping stream of
                   Inl e \<Rightarrow> ([], Inl e)
                 | Inr True \<Rightarrow>
                    (case dict_getitem d ''payload'' of
                       Inl e \<Rightarrow> ([], Inl e)
                     | Inr payload \<Rightarrow>
                        (case payload of
                           PDict p \<Rightarrow>
                             (case message_getitem msg ''reply_channel'' of
                                Inl e \<Rightarrow> ([], Inl e)
                              | Inr rc \<Rightarrow>
                                 (case mapping_getitem mapping stream of
                                    Inl e \<Rightarrow> ([], Inl e)
                                  | Inr dest \<Rightarrow>
                                     ([ChannelSend (PStr dest) (dict_setitem p ''reply_channel'' rc)],
                                      Inr ())))
                         | _ \<Rightarrow> ([], Inl (ValueError ''Multiplexed frame payload is not a dict''))))
                 | Inr False \<Rightarrow>
                    ([], Inl (ValueError ''Invalid multiplexed frame received (stream not mapped)''))))
          else ([], Inl (ValueError ''Invalid multiplexed frame received (no channel/payload key)''))
      | _ \<Rightarrow> ([], Inl (ValueError ''Invalid multiplexed frame received (no channel/payload key)'')))"

section \<open>WebsocketConsumer\<close>

text \<open>
  The class attributes a subclass sets (\<^verbatim>\<open>http_user\<close>, \<^verbatim>\<open>slight_ordering\<close>,
  \<^verbatim>\<open>strict_ordering\<close>), the instance attributes \<^verbatim>\<open>get_handler\<close> assigns
  (\<^verbatim>\<open>channel_session_user\<close>, \<^verbatim>\<open>path\<close>; \<^verbatim>\<open>PNone\<close> stands for a path not yet set),
  and \<^verbatim>\<open>self.message\<close>, the event the consumer was created for. The methods that read
  \<^verbatim>\<open>self.message\<close> take it as their argument \<open>msg\<close>.
\<close>

record consumer =
  http_user :: bool
  slight_ordering :: bool
  strict_ordering :: bool
  channel_session_user :: bool
  path :: pyval
  message :: message

definition method_mapping :: "(string \<times> string) list" where
  "method_mapping =
     [(''websocket.connect'', ''raw_connect''),
      (''websocket.receive'', ''raw_receive''),
      (''websocket.disconnect'', ''raw_disconnect'')]"

text \<open>
  A handler as \<^verbatim>\<open>get_handler\<close> builds it: a bound method of the consumer, possibly wrapped
  by \<^verbatim>\<open>channel_session_user_from_http\<close> and by \<^verbatim>\<open>enforce_ordering(handler, slight=...)\<close>.
\<close>

datatype handler =
    Method string
  | ChannelSessionUserFromHttp handler
  | EnforceOrdering handler bool

text \<open>
  Modelled from the spec: \<^verbatim>\<open>BaseConsumer.get_handler\<close> of \<^verbatim>\<open>channels.generic.base\<close> is not
  among the sources. The dispatcher selects a handler by event kind: the method that
  \<^verbatim>\<open>method_mapping\<close> names for the channel the event arrived on. Session decorators the
  base class may add around that method are left out.
\<close>

definition base_get_handler :: "message \<Rightarrow> error + handler" where
  "base_get_handler msg =
     (case map_of method_mapping (channel msg) of
        None \<Rightarrow> Inl (KeyError (channel msg))
      | Some name \<Rightarrow> Inr (Method name))"

definition get_handler :: "consumer \<Rightarrow> message \<Rightarrow> error + (consumer \<times> handler)" where
  "get_handler self msg =
     (let self1 = (if http_user self then self\<lparr>channel_session_user := True\<rparr> else self) in
      case message_getitem msg ''path'' of
        Inl e \<Rightarrow> Inl e
      | Inr p \<Rightarrow>
         (let self2 = self1\<lparr>path := p\<rparr> in
          case base_get_handler msg of
            Inl e \<Rightarrow> Inl e
          | Inr h \<Rightarrow>
             (let h1 = (if http_user self2 then ChannelSessionUserFromHttp h else h) in
              if strict_ordering self2 then Inr (self2, EnforceOrdering h1 False)
              else if slight_ordering self2 then Inr (self2, EnforceOrdering h1 True)
              else Inr (self2, h1))))"

text \<open>\<^verbatim>\<open>connection_groups\<close> of the base class; a subclass overrides it, so the methods
  that call it take it as an argument.\<close>

definition connection_groups :: "pydict \<Rightarrow> string list" where
  "connection_groups kwargs = []"

definition raw_connect :: "(pydict \<Rightarrow> string list) \<Rightarrow> message \<Rightarrow> pydict \<Rightarrow> unit run" where
  "raw_connect groups msg kwargs =
     (map (\<lambda>g. GroupAdd g (reply_channel msg)) (groups kwargs) @ [UserConnect msg kwargs], Inr ())"

definition raw_receive :: "message \<Rightarrow> pydict \<Rightarrow> unit run" where
  "raw_receive msg kwargs =
     (if message_contains msg ''text'' then
        (case message_getitem msg ''text'' of
           Inl e \<Rightarrow> ([], Inl e)
         | Inr t \<Rightarrow> ([UserReceive t PNone kwargs], Inr ()))
      else
        (case message_getitem msg ''bytes'' of
           Inl e \<Rightarrow> ([], Inl e)
         | Inr b \<Rightarrow> ([UserReceive PNone b kwargs], Inr ())))"

definition send :: "message \<Rightarrow> pyval \<Rightarrow> pyval \<Rightarrow> bool \<Rightarrow> unit run" where
  "send msg text bytes close =
     (let message0 = (if close then dict_setitem [] ''close'' (PBool True) else []) in
      if text \<noteq> PNone then reply_channel_send msg (dict_setitem message0 ''text'' text)
      else if bytes \<noteq> PNone then reply_channel_send msg (dict_setitem message0 ''bytes'' bytes)
      else ([], Inl (ValueError ''You must pass text or bytes'')))"

definition group_send :: "string \<Rightarrow> pyval \<Rightarrow> pyval \<Rightarrow> bool \<Rightarrow> unit run" where
  "group_send name text bytes close =
     (let message0 = (if close then dict_setitem [] ''close'' (PBool True) else []) in
      if text \<noteq> PNone then
        ([GroupSend name (dict_setitem message0 ''text'' text)], Inr ())
      else if bytes \<noteq> PNone then
        ([GroupSend name (dict_setitem message0 ''bytes'' bytes)], Inr ())
      else ([], Inl (ValueError ''You must pass text or bytes'')))"

definition raw_disconnect :: "(pydict \<Rightarrow> string list) \<Rightarrow> message \<Rightarrow> pydict \<Rightarrow> unit run" where
  "raw_disconnect groups msg kwargs =
     (map (\<lambda>g. GroupDiscard g (reply_channel msg)) (groups kwargs) @ [UserDisconnect msg kwargs],
      Inr ())"

text \<open>
  Modelled from the spec: the \<^verbatim>\<open>Group\<close> class of \<^verbatim>\<open>channels.channel\<close> is not among the
  sources. A group is a named set of reply sinks: \<^verbatim>\<open>add\<close> is idempotent and
  \<^verbatim>\<open>discard\<close> of a non-member is a no-op. \<open>group_effects\<close> replays a run's effects on
  the membership of every group.
\<close>

fun group_effect :: "(string \<Rightarrow> pyval set) \<Rightarrow> effect \<Rightarrow> (string \<Rightarrow> pyval set)" where
  "group_effect members (GroupAdd g c) = members(g := insert c (members g))"
| "group_effect members (GroupDiscard g c) = members(g := members g - {c})"
| "group_effect members e = members"

definition group_effects :: "(string \<Rightarrow> pyval set) \<Rightarrow> effect list \<Rightarrow> (string \<Rightarrow> pyval set)" where
  "group_effects members effs = foldl group_effect members effs"

section \<open>JsonWebsocketConsumer\<close>

text \<open>
  \<^verbatim>\<open>json.loads\<close> and \<^verbatim>\<open>json.dumps\<close> belong to the Python library, not to this
  repository: the methods take them as arguments. \<^verbatim>\<open>self.receive\<close> is bound late (the
  demultiplexer overrides it), so \<^verbatim>\<open>raw_receive\<close> takes it as an argument too.
\<close>

definition json_raw_receive ::
  "(pyval \<Rightarrow> error + pyval) \<Rightarrow> (pyval \<Rightarrow> pydict \<Rightarrow> unit run) \<Rightarrow> message \<Rightarrow> pydict \<Rightarrow> unit run" where
  "json_raw_receive loads receive msg kwargs =
     (if message_contains msg ''text'' then
        (case message_getitem msg ''text'' of
           Inl e \<Rightarrow> ([], Inl e)
         | Inr t \<Rightarrow>
            (case loads t of
               Inl e \<Rightarrow> ([JsonLoads t], Inl e)
             | Inr cont \<Rightarrow> (JsonLoads t # fst (receive cont kwargs), snd (receive cont kwargs))))
      else ([], Inl (ValueError ''No text section for incoming WebSocket frame!'')))"

definition json_receive :: "pyval \<Rightarrow> pydict \<Rightarrow> unit run" where
  "json_receive cont kwargs = ([UserReceiveContent cont kwargs], Inr ())"

definition json_send :: "(pyval \<Rightarrow> error + string) \<Rightarrow> message \<Rightarrow> pyval \<Rightarrow> bool \<Rightarrow> unit run" where
  "json_send dumps msg cont close =
     (case dumps cont of
        Inl e \<Rightarrow> ([], Inl e)
      | Inr t \<Rightarrow> send msg (PStr t) PNone close)"

definition json_group_send :: "(pyval \<Rightarrow> error + string) \<Rightarrow> string \<Rightarrow> pyval \<Rightarrow> bool \<Rightarrow> unit run" where
  "json_group_send dumps name cont close =
     (case dumps cont of
        Inl e \<Rightarrow> ([], Inl e)
      | Inr t \<Rightarrow> group_send name (PStr t) PNone close)"

fun is_decode_error :: "error + 'a \<Rightarrow> bool" where
  "is_decode_error (Inl (JSONDecodeError m)) = True"
| "is_decode_error r = False"

section \<open>WebsocketDemultiplexer: outbound\<close>

definition encode :: "(pyval \<Rightarrow> error + string) \<Rightarrow> pyval \<Rightarrow> pyval \<Rightarrow> error + pydict" where
  "encode dumps stream payload =
     (case dumps (PDict [(''stream'', stream), (''payload'', payload)]) of
        Inl e \<Rightarrow> Inl e
      | Inr t \<Rightarrow> Inr [(''text'', PStr t)])"

definition demux_send :: "(pyval \<Rightarrow> error + string) \<Rightarrow> message \<Rightarrow> pyval \<Rightarrow> pyval \<Rightarrow> unit run" where
  "demux_send dumps msg stream payload =
     (case encode dumps stream payload of
        Inl e \<Rightarrow> ([], Inl e)
      | Inr frame \<Rightarrow> reply_channel_send msg frame)"

definition demux_group_send ::
  "(pyval \<Rightarrow> error + string) \<Rightarrow> string \<Rightarrow> pyval \<Rightarrow> pyval \<Rightarrow> bool \<Rightarrow> unit run" where
  "demux_group_send dumps name stream payload close =
     (case encode dumps stream payload of
        Inl e \<Rightarrow> ([], Inl e)
      | Inr frame \<Rightarrow>
         ([GroupSend name (if close then dict_setitem frame ''close'' (PBool True) else frame)],
          Inr ()))"

section \<open>The ordering guard\<close>

text \<open>
  Modelled from the spec: \<^verbatim>\<open>enforce_ordering\<close> of \<^verbatim>\<open>channels.sessions\<close> is not among the
  sources. Every inbound message of a connection carries an order token. The guard of a
  connection keeps the next expected token and the messages it has buffered; a message is
  identified with its token.
\<close>

record guard =
  expected :: nat
  waiting :: "nat list"

text \<open>
  Releasing buffered messages once the gap is filled: as long as the message with the next
  token is waiting it is taken out of the buffer and handed on. The result is the messages
  released, in order, the next expected token and what stays buffered.
\<close>

function release :: "nat \<Rightarrow> nat list \<Rightarrow> nat list \<times> nat \<times> nat list" where
  "release n buf =
     (if n \<in> set buf then
        (case release (Suc n) (remove1 n buf) of (out, n', buf') \<Rightarrow> (n # out, n', buf'))
      else ([], n, buf))"
  by pat_completeness auto
termination
proof (relation "measure (\<lambda>(n, buf). length buf)")
  show "wf (measure (\<lambda>(n, buf). length buf))"
    by simp
next
  fix n :: nat and buf :: "nat list"
  assume "n \<in> set buf"
  then have "0 < length buf"
    by (rule length_pos_if_in_set)
  with \<open>n \<in> set buf\<close>
  show "((Suc n, remove1 n buf), (n, buf)) \<in> measure (\<lambda>(n, buf). length buf)"
    by (simp add: length_remove1)
qed

text \<open>
  One delivery to the guarded handler. In strict mode (\<^verbatim>\<open>slight=False\<close>) a message whose
  token is the next expected one is handed on, followed by the buffered messages it
  unblocks; any other message is buffered, never dropped. The spec leaves the window and
  the release policy of the slight mode open, so that mode is an argument.
\<close>

definition enforce_ordering ::
  "(guard \<Rightarrow> nat \<Rightarrow> guard \<times> nat list) \<Rightarrow> bool \<Rightarrow> guard \<Rightarrow> nat \<Rightarrow> guard \<times> nat list" where
  "enforce_ordering slight_policy slight g t =
     (if slight then slight_policy g t
      else if t = expected g then
        (case release (Suc t) (waiting g) of
           (out, n, buf) \<Rightarrow> (\<lparr>expected = n, waiting = buf\<rparr>, t # out))
      else (g\<lparr>waiting := waiting g @ [t]\<rparr>, []))"

text \<open>
  The messages on which the consumer's method runs, in order, when one message is delivered
  to a handler built by \<^verbatim>\<open>get_handler\<close>, and when a list of messages is delivered one
  after the other. Messages that arrive concurrently are delivered in some order, each
  delivery being one step of the guard. A handler without the ordering decorator runs on
  every message as it arrives.
\<close>

fun deliver ::
  "(guard \<Rightarrow> nat \<Rightarrow> guard \<times> nat list) \<Rightarrow> handler \<Rightarrow> guard \<Rightarrow> nat \<Rightarrow> guard \<times> nat list" where
  "deliver slight_policy (EnforceOrdering h slight) g t = enforce_ordering slight_policy slight g t"
| "deliver slight_policy h g t = (g, [t])"

fun deliver_all ::
  "(guard \<Rightarrow> nat \<Rightarrow> guard \<times> nat list) \<Rightarrow> handler \<Rightarrow> guard \<Rightarrow> nat list \<Rightarrow> guard \<times> nat list" where
  "deliver_all slight_policy h g [] = (g, [])"
| "deliver_all slight_policy h g (t # ts) =
     (case deliver slight_policy h g t of
        (g1, out1) \<Rightarrow>
          (case deliver_all slight_policy h g1 ts of (g2, out2) \<Rightarrow> (g2, out1 @ out2)))"

section \<open>A reference JSON codec\<close>

text \<open>
  \<^verbatim>\<open>json.dumps\<close> and \<^verbatim>\<open>json.loads\<close> are arguments of the methods above. This section
  gives one instance of them, a printer and a parser of JSON text over the values of
  \<open>pyval\<close>, in the layout \<^verbatim>\<open>json.dumps\<close> uses (\<^verbatim>\<open>", "\<close> between items, \<^verbatim>\<open>": "\<close> after a
  key). It is not the Python library: it escapes the double quote and the backslash only,
  reads no other layout than the one it prints, and knows no floating-point numbers. It
  serves to show that the round-trip law assumed of the library can be met.
\<close>

definition dquote :: char where "dquote = CHR 0x22"
definition backslash :: char where "backslash = CHR 0x5C"

text \<open>String bodies: a double quote and a backslash are escaped by a backslash.\<close>

fun escape :: "string \<Rightarrow> string" where
  "escape [] = []"
| "escape (c # cs) =
     (if c = dquote \<or> c = backslash then backslash # c # escape cs else c # escape cs)"

fun parse_string :: "string \<Rightarrow> (string \<times> string) option" where
  "parse_string [] = None"
| "parse_string (c # cs) =
     (if c = dquote then Some ([], cs)
      else if c = backslash then
        (case cs of
           [] \<Rightarrow> None
         | d # ds \<Rightarrow> (case parse_string ds of None \<Rightarrow> None | Some (s, r) \<Rightarrow> Some (d # s, r)))
      else (case parse_string cs of None \<Rightarrow> None | Some (s, r) \<Rightarrow> Some (c # s, r)))"

text \<open>Decimal digits and natural numbers.\<close>

definition is_digit :: "char \<Rightarrow> bool" where
  "is_digit c = (48 \<le> (of_char c :: nat) \<and> (of_char c :: nat) \<le> 57)"

definition digit_char :: "nat \<Rightarrow> char" where
  "digit_char d = char_of (48 + d)"

definition digit_val :: "char \<Rightarrow> nat" where
  "digit_val c = of_char c - 48"

fun show_nat :: "nat \<Rightarrow> string" where
  "show_nat n = (if n < 10 then [digit_char n] else show_nat (n div 10) @ [digit_char (n mod 10)])"

fun read_nat :: "nat \<Rightarrow> string \<Rightarrow> nat \<times> string" where
  "read_nat acc [] = (acc, [])"
| "read_nat acc (c # cs) =
     (if is_digit c then read_nat (10 * acc + digit_val c) cs else (acc, c # cs))"

definition no_digit :: "string \<Rightarrow> bool" where
  "no_digit rest = (case rest of [] \<Rightarrow> True | c # cs \<Rightarrow> \<not> is_digit c)"

text \<open>\<open>strip_prefix p s\<close> is what follows \<open>p\<close> in \<open>s\<close>, if \<open>s\<close> starts with \<open>p\<close>; \<open>join\<close>
  puts \<^verbatim>\<open>", "\<close> between the items.\<close>

fun strip_prefix :: "string \<Rightarrow> string \<Rightarrow> string option" where
  "strip_prefix [] s = Some s"
| "strip_prefix (p # ps) [] = None"
| "strip_prefix (p # ps) (c # cs) = (if p = c then strip_prefix ps cs else None)"

fun join :: "string list \<Rightarrow> string" where
  "join [] = []"
| "join [x] = x"
| "join (x # y # ys) = x @ '', '' @ join (y # ys)"

text \<open>
  The JSON-representable values: no byte string anywhere, and every object with each key
  once, as a Python dict has it.
\<close>

fun json_value :: "pyval \<Rightarrow> bool" where
  "json_value (PBytes b) = False"
| "json_value (PList xs) = list_all json_value xs"
| "json_value (PDict kvs) = (distinct (map fst kvs) \<and> list_all (\<lambda>kv. json_value (snd kv)) kvs)"
| "json_value v = True"

fun dumps_text :: "pyval \<Rightarrow> string" where
  "dumps_text PNone = ''null''"
| "dumps_text (PBool b) = (if b then ''true'' else ''false'')"
| "dumps_text (PInt i) = (if i < 0 then CHR ''-'' # show_nat (nat (- i)) else show_nat (nat i))"
| "dumps_text (PStr s) = dquote # escape s @ [dquote]"
| "dumps_text (PBytes b) = []"
| "dumps_text (PList xs) = CHR ''['' # join (map dumps_text xs) @ '']''"
| "dumps_text (PDict kvs) =
     CHR ''{'' # join (map (\<lambda>kv. dquote # escape (fst kv) @ dquote # '': '' @ dumps_text (snd kv)) kvs)
       @ ''}''"

definition parse_int :: "string \<Rightarrow> (pyval \<times> string) option" where
  "parse_int s =
     (case s of
        [] \<Rightarrow> None
      | c # cs \<Rightarrow>
         if c = CHR ''-'' then
           (case cs of
              [] \<Rightarrow> None
            | d # ds \<Rightarrow>
               if is_digit d then
                 (case read_nat 0 cs of (n, r) \<Rightarrow> Some (PInt (- int n), r))
               else None)
         else if is_digit c then (case read_nat 0 s of (n, r) \<Rightarrow> Some (PInt (int n), r))
         else None)"

text \<open>
  The parser is a recursive descent with fuel: every call into a nested value takes one
  unit. \<open>weight v\<close> is fuel enough for the text of \<open>v\<close>, and the length of a text is fuel
  enough for it.
\<close>

fun weight :: "pyval \<Rightarrow> nat" where
  "weight (PList xs) = Suc (sum_list (map (\<lambda>x. Suc (weight x)) xs))"
| "weight (PDict kvs) = Suc (sum_list (map (\<lambda>kv. Suc (weight (snd kv))) kvs))"
| "weight v = 1"

fun parse_value :: "nat \<Rightarrow> string \<Rightarrow> (pyval \<times> string) option"
  and parse_items :: "nat \<Rightarrow> string \<Rightarrow> (pyval list \<times> string) option"
  and parse_pairs :: "nat \<Rightarrow> string \<Rightarrow> ((string \<times> pyval) list \<times> string) option" where
  "parse_value 0 s = None"
| "parse_value (Suc n) [] = None"
| "parse_value (Suc n) (c # r) =
     (if c = CHR ''n'' then map_option (Pair PNone) (strip_prefix ''ull'' r)
      else if c = CHR ''t'' then map_option (Pair (PBool True)) (strip_prefix ''rue'' r)
      else if c = CHR ''f'' then map_option (Pair (PBool False)) (strip_prefix ''alse'' r)
      else if c = dquote then
        (case parse_string r of None \<Rightarrow> None | Some (s, r') \<Rightarrow> Some (PStr s, r'))
      else if c = CHR ''['' then
        (case strip_prefix '']'' r of
           Some r' \<Rightarrow> Some (PList [], r')
         | None \<Rightarrow> (case parse_items n r of None \<Rightarrow> None | Some (xs, r') \<Rightarrow> Some (PList xs, r')))
      else if c = CHR ''{'' then
        (case strip_prefix ''}'' r of
           Some r' \<Rightarrow> Some (PDict [], r')
         | None \<Rightarrow> (case parse_pairs n r of None \<Rightarrow> None | Some (kvs, r') \<Rightarrow> Some (PDict kvs, r')))
      else parse_int (c # r))"
| "parse_items 0 s = None"
| "parse_items (Suc n) s =
     (case parse_value n s of
        None \<Rightarrow> None
      | Some (v, r) \<Rightarrow>
         (case strip_prefix '', '' r of
            Some r' \<Rightarrow>
              (case parse_items n r' of None \<Rightarrow> None | Some (vs, r'') \<Rightarrow> Some (v # vs, r''))
          | None \<Rightarrow> (case strip_prefix '']'' r of None \<Rightarrow> None | Some r' \<Rightarrow> Some ([v], r'))))"
| "parse_pairs 0 s = None"
| "parse_pairs (Suc n) s =
     (case strip_prefix [dquote] s of
        None \<Rightarrow> None
      | Some r0 \<Rightarrow>
         (case parse_string r0 of
            None \<Rightarrow> None
          | Some (k, r1) \<Rightarrow>
             (case strip_prefix '': '' r1 of
                None \<Rightarrow> None
              | Some r2 \<Rightarrow>
                 (case parse_value n r2 of
                    None \<Rightarrow> None
                  | Some (v, r) \<Rightarrow>
                     (case strip_prefix '', '' r of
                        Some r' \<Rightarrow>
                          (case parse_pairs n r' of
                             None \<Rightarrow> None
                           | Some (kvs, r'') \<Rightarrow> Some ((k, v) # kvs, r''))
                      | None \<Rightarrow>
                          (case strip_prefix ''}'' r of
                             None \<Rightarrow> None
                           | Some r' \<Rightarrow> Some ([(k, v)], r')))))))"

definition ref_dumps :: "pyval \<Rightarrow> error + string" where
  "ref_dumps v =
     (if json_value v then Inr (dumps_text v)
      else Inl (TypeError ''Object is not JSON serializable''))"

definition ref_loads :: "pyval \<Rightarrow> error + pyval" where
  "ref_loads t =
     (case t of
        PStr s \<Rightarrow>
          (case parse_value (length s) s of
             Some (v, []) \<Rightarrow> Inr v
           | _ \<Rightarrow> Inl (JSONDecodeError ''Expecting value''))
      | _ \<Rightarrow> Inl (TypeError ''the JSON object must be str''))"

text \<open>\<^verbatim>\<open>WebsocketConsumer.close\<close>, placed last: its name is the name of the other methods'
  \<^verbatim>\<open>close\<close> argument.\<close>

definition close :: "message \<Rightarrow> unit run" where
  "close msg = reply_channel_send msg [(''close'', PBool True)]"

section \<open>Properties of the dictionary operations\<close>

lemma dict_setitem_map_of: "map_of (dict_setitem d k v) = (map_of d)(k \<mapsto> v)"
  by (induction d) (auto simp: fun_eq_iff)

lemma dict_setitem_keys:
  "map fst (dict_setitem d k v) = (if k \<in> set (map fst d) then map fst d else map fst d @ [k])"
  by (induction d) auto

lemma dict_setitem_only_value:
  assumes "distinct (map fst d)" and "(k, w) \<in> set (dict_setitem d k v)"
  shows "w = v"
proof -
  have "distinct (map fst (dict_setitem d k v))"
    using assms(1) by (simp add: dict_setitem_keys)
  then have "map_of (dict_setitem d k v) k = Some w"
    using assms(2) by (rule map_of_is_SomeI)
  then show ?thesis
    by (simp add: dict_setitem_map_of)
qed

section \<open>Routing of demultiplexed frames\<close>

lemmas demux_defs = demux_receive_def dict_contains_def dict_getitem_def mapping_contains_def
  mapping_getitem_def message_getitem_def

text \<open>
  A frame is routed only when it is an object whose stream is a key of the mapping, whose
  payload is an object, and the event carries a reply channel; the one effect is then the
  send of the payload, with the reply channel stored in it, to the mapped channel.
\<close>

lemma demux_receive_success:
  assumes "demux_receive mapping msg cont = (effs, Inr u)"
  shows "\<exists>d s dest inbound rc.
           cont = PDict d \<and> map_of d ''stream'' = Some (PStr s) \<and> map_of mapping s = Some dest \<and>
           map_of d ''payload'' = Some (PDict inbound) \<and>
           map_of (content msg) ''reply_channel'' = Some rc \<and>
           effs = [ChannelSend (PStr dest) (dict_setitem inbound ''reply_channel'' rc)]"
  using assms
  by (auto simp: demux_defs
      split: pyval.splits if_splits sum.splits option.splits bool.splits)

text \<open>
  C1. With the mapping \<^verbatim>\<open>{"chat": "chat-queue"}\<close>, \<^verbatim>\<open>receive\<close> on
  \<^verbatim>\<open>{"stream": "chat", "payload": {"msg": "hi"}}\<close> performs exactly one effect: it sends
  \<^verbatim>\<open>{"msg": "hi", "reply_channel": rc}\<close> to the channel \<^verbatim>\<open>chat-queue\<close>, where \<open>rc\<close> is
  the reply channel of the event being handled. No user-level \<^verbatim>\<open>receive\<close> callback is
  among the effects.
\<close>

theorem demux_receive_chat_example:
  "map_of (content msg) ''reply_channel'' = Some rc \<Longrightarrow>
   demux_receive [(''chat'', ''chat-queue'')] msg
     (PDict [(''stream'', PStr ''chat''), (''payload'', PDict [(''msg'', PStr ''hi'')])])
   = ([ChannelSend (PStr ''chat-queue'') [(''msg'', PStr ''hi''), (''reply_channel'', rc)]], Inr ())"
  by (simp add: demux_defs)

theorem demux_receive_chat_example_witness:
  "demux_receive [(''chat'', ''chat-queue'')]
     \<lparr>channel = ''websocket.receive'',
      content = [(''reply_channel'', PStr ''websocket.send!abc''), (''text'', PStr ''...'')]\<rparr>
     (PDict [(''stream'', PStr ''chat''), (''payload'', PDict [(''msg'', PStr ''hi'')])])
   = ([ChannelSend (PStr ''chat-queue'')
        [(''msg'', PStr ''hi''), (''reply_channel'', PStr ''websocket.send!abc'')]], Inr ())"
  using demux_receive_chat_example
    [of "\<lparr>channel = ''websocket.receive'',
      content = [(''reply_channel'', PStr ''websocket.send!abc''), (''text'', PStr ''...'')]\<rparr>"
        "PStr ''websocket.send!abc''"]
  by simp

text \<open>
  The else branch of the mapping test: a decoded object that has a stream and a payload,
  whose stream value is hashable and no key of the mapping, is refused with the
  \<^verbatim>\<open>ValueError\<close> "stream not mapped", whatever the payload is; and whenever the stream
  value is no key of the mapping, nothing is sent.
\<close>

lemma demux_receive_unmapped_hashable:
  assumes "cont = PDict d" and "map_of d ''stream'' = Some stream"
    and "map_of d ''payload'' = Some payload"
    and "\<forall>s. stream = PStr s \<longrightarrow> map_of mapping s = None"
  shows "fst (demux_receive mapping msg cont) = []"
    and "hashable stream \<Longrightarrow>
          demux_receive mapping msg cont =
            ([], Inl (ValueError ''Invalid multiplexed frame received (stream not mapped)''))"
  using assms by (cases stream; simp add: demux_defs)+

text \<open>
  C2. Every decoded content whose stream value is absent from the mapping is to fail with
  the \<^verbatim>\<open>ValueError\<close> "stream not mapped" and to send nothing. The code misses a case:
  on the frame \<^verbatim>\<open>{"stream": [], "payload": {}}\<close> the test \<^verbatim>\<open>stream in self.mapping\<close>
  itself raises \<^verbatim>\<open>TypeError: unhashable type: 'list'\<close>, so the else branch that raises the
  \<^verbatim>\<open>ValueError\<close> is never reached, while the unmapped stream \<^verbatim>\<open>"admin"\<close> does reach
  it. Nothing is sent in either case.
\<close>

theorem demux_unhashable_stream:
  "demux_receive [(''chat'', ''chat-queue'')]
     \<lparr>channel = ''websocket.receive'', content = [(''reply_channel'', PStr ''reply!1'')]\<rparr>
     (PDict [(''stream'', PList []), (''payload'', PDict [])])
   = ([], Inl (unhashable_type ''list''))
   \<and> demux_receive [(''chat'', ''chat-queue'')]
     \<lparr>channel = ''websocket.receive'', content = [(''reply_channel'', PStr ''reply!1'')]\<rparr>
     (PDict [(''stream'', PList []), (''payload'', PDict [])])
   \<noteq> ([], Inl (ValueError ''Invalid multiplexed frame received (stream not mapped)''))
   \<and> demux_receive [(''chat'', ''chat-queue'')]
     \<lparr>channel = ''websocket.receive'', content = [(''reply_channel'', PStr ''reply!1'')]\<rparr>
     (PDict [(''stream'', PStr ''admin''), (''payload'', PDict [])])
   = ([], Inl (ValueError ''Invalid multiplexed frame received (stream not mapped)''))"
  by (simp add: demux_defs unhashable_type_def)

text \<open>
  C3. A decoded content that is not an object with both a \<^verbatim>\<open>stream\<close> and a
  \<^verbatim>\<open>payload\<close> key makes \<^verbatim>\<open>receive\<close> fail with the \<^verbatim>\<open>ValueError\<close>
  "no channel/payload key" and send nothing; a content whose stream is a key of the mapping
  and whose payload is not an object makes it fail with the \<^verbatim>\<open>ValueError\<close>
  "payload is not a dict" and send nothing.
\<close>

theorem demux_receive_shape_errors:
  "(\<not> (\<exists>d. cont = PDict d \<and> dict_contains d ''stream'' \<and> dict_contains d ''payload'') \<longrightarrow>
      demux_receive mapping msg cont =
        ([], Inl (ValueError ''Invalid multiplexed frame received (no channel/payload key)'')))
   \<and> (\<forall>d s dest payload.
        cont = PDict d \<and> map_of d ''stream'' = Some (PStr s) \<and> map_of mapping s = Some dest \<and>
        map_of d ''payload'' = Some payload \<and> \<not> is_dict payload \<longrightarrow>
        demux_receive mapping msg cont =
          ([], Inl (ValueError ''Multiplexed frame payload is not a dict'')))"
proof (intro conjI allI impI)
  assume "\<not> (\<exists>d. cont = PDict d \<and> dict_contains d ''stream'' \<and> dict_contains d ''payload'')"
  then show "demux_receive mapping msg cont =
        ([], Inl (ValueError ''Invalid multiplexed frame received (no channel/payload key)''))"
    by (cases cont) (auto simp: demux_receive_def)
next
  fix d s dest payload
  assume "cont = PDict d \<and> map_of d ''stream'' = Some (PStr s) \<and> map_of mapping s = Some dest \<and>
        map_of d ''payload'' = Some payload \<and> \<not> is_dict payload"
  then show "demux_receive mapping msg cont =
          ([], Inl (ValueError ''Multiplexed frame payload is not a dict''))"
    by (cases payload) (simp_all add: demux_defs)
qed

theorem demux_receive_shape_errors_witness:
  "demux_receive [(''chat'', ''chat-queue'')]
     \<lparr>channel = ''websocket.receive'', content = [(''reply_channel'', PStr ''reply!1'')]\<rparr>
     (PDict [(''foo'', PStr ''bar'')])
   = ([], Inl (ValueError ''Invalid multiplexed frame received (no channel/payload key)''))
   \<and> demux_receive [(''chat'', ''chat-queue'')]
     \<lparr>channel = ''websocket.receive'', content = [(''reply_channel'', PStr ''reply!1'')]\<rparr>
     (PDict [(''stream'', PStr ''chat''), (''payload'', PStr ''hi'')])
   = ([], Inl (ValueError ''Multiplexed frame payload is not a dict''))"
proof -
  let ?m = "\<lparr>channel = ''websocket.receive'', content = [(''reply_channel'', PStr ''reply!1'')]\<rparr>"
  note a = demux_receive_shape_errors
    [of "PDict [(''foo'', PStr ''bar'')]" "[(''chat'', ''chat-queue'')]" ?m, THEN conjunct1]
  note b = demux_receive_shape_errors
    [of "PDict [(''stream'', PStr ''chat''), (''payload'', PStr ''hi'')]"
      "[(''chat'', ''chat-queue'')]" ?m, THEN conjunct2, rule_format,
      of "[(''stream'', PStr ''chat''), (''payload'', PStr ''hi'')]" "''chat''" "''chat-queue''"
        "PStr ''hi''"]
  have "\<not> (\<exists>d. PDict [(''foo'', PStr ''bar'')] = PDict d \<and> dict_contains d ''stream'' \<and>
      dict_contains d ''payload'')"
    by (simp add: dict_contains_def)
  from a [rule_format, OF this] b show ?thesis
    by simp
qed

text \<open>
  C10. Every successfully routed frame sends one payload, and its \<^verbatim>\<open>reply_channel\<close> key
  is bound to the reply channel of the event being handled: the inbound payload's own
  value under that key, if it had one, is overwritten (a dict has each key once, so no
  other binding of the key is left), and every other key is passed on unchanged.
\<close>

theorem demux_reply_channel_overwritten:
  assumes "demux_receive mapping msg cont = (effs, Inr ())"
  shows "\<exists>d inbound dest sent.
           cont = PDict d \<and> map_of d ''payload'' = Some (PDict inbound) \<and>
           effs = [ChannelSend (PStr dest) sent] \<and>
           message_getitem msg ''reply_channel'' = Inr (reply_channel msg) \<and>
           map_of sent ''reply_channel'' = Some (reply_channel msg) \<and>
           (distinct (map fst inbound) \<longrightarrow>
              (\<forall>v. (''reply_channel'', v) \<in> set sent \<longrightarrow> v = reply_channel msg)) \<and>
           (\<forall>k. k \<noteq> ''reply_channel'' \<longrightarrow> map_of sent k = map_of inbound k)"
proof -
  from demux_receive_success [OF assms] obtain d s dest inbound rc where
    c: "cont = PDict d" and p: "map_of d ''payload'' = Some (PDict inbound)" and
    r: "map_of (content msg) ''reply_channel'' = Some rc" and
    e: "effs = [ChannelSend (PStr dest) (dict_setitem inbound ''reply_channel'' rc)]"
    by blast
  have rc: "reply_channel msg = rc"
    using r by (simp add: reply_channel_def)
  have g: "message_getitem msg ''reply_channel'' = Inr (reply_channel msg)"
    using r by (simp add: message_getitem_def dict_getitem_def reply_channel_def)
  have only: "distinct (map fst inbound) \<longrightarrow>
      (\<forall>v. (''reply_channel'', v) \<in> set (dict_setitem inbound ''reply_channel'' rc) \<longrightarrow> v = rc)"
    using dict_setitem_only_value by blast
  show ?thesis
    using c p e g only by (simp add: rc dict_setitem_map_of)
qed

theorem demux_reply_channel_overwritten_witness:
  "demux_receive [(''chat'', ''chat-queue'')]
     \<lparr>channel = ''websocket.receive'', content = [(''reply_channel'', PStr ''reply!1'')]\<rparr>
     (PDict [(''stream'', PStr ''chat''),
             (''payload'', PDict [(''reply_channel'', PStr ''reply!2''), (''msg'', PStr ''hi'')])])
   = ([ChannelSend (PStr ''chat-queue'')
         [(''reply_channel'', PStr ''reply!1''), (''msg'', PStr ''hi'')]], Inr ())
   \<and> (\<exists>d inbound dest sent.
         PDict [(''stream'', PStr ''chat''),
                (''payload'', PDict [(''reply_channel'', PStr ''reply!2''), (''msg'', PStr ''hi'')])]
           = PDict d \<and>
         map_of d ''payload'' = Some (PDict inbound) \<and>
         [ChannelSend (PStr ''chat-queue'')
            [(''reply_channel'', PStr ''reply!1''), (''msg'', PStr ''hi'')]]
           = [ChannelSend (PStr dest) sent] \<and>
         map_of sent ''reply_channel'' = Some (PStr ''reply!1''))"
proof -
  let ?m = "\<lparr>channel = ''websocket.receive'', content = [(''reply_channel'', PStr ''reply!1'')]\<rparr>"
  let ?c = "PDict [(''stream'', PStr ''chat''),
             (''payload'', PDict [(''reply_channel'', PStr ''reply!2''), (''msg'', PStr ''hi'')])]"
  let ?e = "[ChannelSend (PStr ''chat-queue'')
         [(''reply_channel'', PStr ''reply!1''), (''msg'', PStr ''hi'')]]"
  have run: "demux_receive [(''chat'', ''chat-queue'')] ?m ?c = (?e, Inr ())"
    by (simp add: demux_defs)
  have rc: "reply_channel ?m = PStr ''reply!1''"
    by (simp add: reply_channel_def)
  from demux_reply_channel_overwritten [OF run] show ?thesis
    using run by (simp add: rc)
qed

section \<open>Outbound frames of the base consumer\<close>

text \<open>
  The claim C4 as stated fails where both \<^verbatim>\<open>text\<close> and \<^verbatim>\<open>bytes\<close> are given:
  \<^verbatim>\<open>send\<close> and \<^verbatim>\<open>group_send\<close> do not raise, they send the text and drop the bytes.
\<close>

theorem send_both_set_counterexample:
  "send \<lparr>channel = ''websocket.receive'', content = [(''reply_channel'', PStr ''reply!1'')]\<rparr>
     (PStr ''a'') (PBytes ''b'') False
   = ([ChannelSend (PStr ''reply!1'') [(''text'', PStr ''a'')]], Inr ())
   \<and> group_send ''room'' (PStr ''a'') (PBytes ''b'') False
   = ([GroupSend ''room'' [(''text'', PStr ''a'')]], Inr ())"
  by (simp add: send_def group_send_def reply_channel_send_def reply_channel_def)

text \<open>
  C4, amended. \<^verbatim>\<open>send\<close> and \<^verbatim>\<open>group_send\<close> fail with \<^verbatim>\<open>ValueError\<close>, sending
  nothing, exactly when neither \<^verbatim>\<open>text\<close> nor \<^verbatim>\<open>bytes\<close> is given. When \<^verbatim>\<open>text\<close> is
  given the frame holds \<^verbatim>\<open>text\<close> only (also when \<^verbatim>\<open>bytes\<close> is given too, which is then
  ignored); when only \<^verbatim>\<open>bytes\<close> is given the frame holds \<^verbatim>\<open>bytes\<close> only; in both cases
  \<^verbatim>\<open>close\<close> is in the frame exactly when it was requested. \<^verbatim>\<open>group_send\<close> sends the
  frame to the group, \<^verbatim>\<open>send\<close> to the reply channel of the event; on an event that
  carries no reply channel \<^verbatim>\<open>send\<close> sends nothing and raises \<^verbatim>\<open>AttributeError\<close>.
\<close>

theorem send_frame_fields:
  "(send msg text bytes cl = ([], Inl (ValueError ''You must pass text or bytes''))
      \<longleftrightarrow> text = PNone \<and> bytes = PNone)
   \<and> (group_send name text bytes cl = ([], Inl (ValueError ''You must pass text or bytes''))
      \<longleftrightarrow> text = PNone \<and> bytes = PNone)
   \<and> (text \<noteq> PNone \<longrightarrow>
        (reply_channel msg \<noteq> PNone \<longrightarrow>
           send msg text bytes cl =
             ([ChannelSend (reply_channel msg)
                 ((if cl then [(''close'', PBool True)] else []) @ [(''text'', text)])], Inr ()))
        \<and> (reply_channel msg = PNone \<longrightarrow>
           send msg text bytes cl = ([], Inl none_has_no_send))
        \<and> group_send name text bytes cl =
          ([GroupSend name ((if cl then [(''close'', PBool True)] else []) @ [(''text'', text)])],
           Inr ()))
   \<and> (text = PNone \<and> bytes \<noteq> PNone \<longrightarrow>
        (reply_channel msg \<noteq> PNone \<longrightarrow>
           send msg text bytes cl =
             ([ChannelSend (reply_channel msg)
                 ((if cl then [(''close'', PBool True)] else []) @ [(''bytes'', bytes)])], Inr ()))
        \<and> (reply_channel msg = PNone \<longrightarrow>
           send msg text bytes cl = ([], Inl none_has_no_send))
        \<and> group_send name text bytes cl =
          ([GroupSend name ((if cl then [(''close'', PBool True)] else []) @ [(''bytes'', bytes)])],
           Inr ()))"
  by (simp add: send_def group_send_def reply_channel_send_def none_has_no_send_def)

theorem send_frame_fields_witness:
  "send \<lparr>channel = ''websocket.receive'', content = [(''reply_channel'', PStr ''reply!1'')]\<rparr>
     PNone (PBytes ''b'') True
   = ([ChannelSend (PStr ''reply!1'') [(''close'', PBool True), (''bytes'', PBytes ''b'')]], Inr ())
   \<and> group_send ''room'' PNone (PBytes ''b'') True
   = ([GroupSend ''room'' [(''close'', PBool True), (''bytes'', PBytes ''b'')]], Inr ())
   \<and> send \<lparr>channel = ''websocket.receive'', content = [(''reply_channel'', PStr ''reply!1'')]\<rparr>
     PNone PNone True
   = ([], Inl (ValueError ''You must pass text or bytes''))
   \<and> send \<lparr>channel = ''websocket.receive'', content = [(''text'', PStr ''x'')]\<rparr>
     (PStr ''a'') PNone False
   = ([], Inl none_has_no_send)"
  using send_frame_fields
    [of "\<lparr>channel = ''websocket.receive'', content = [(''reply_channel'', PStr ''reply!1'')]\<rparr>"
      PNone "PBytes ''b''" True "''room''"]
    send_frame_fields
    [of "\<lparr>channel = ''websocket.receive'', content = [(''reply_channel'', PStr ''reply!1'')]\<rparr>"
      PNone PNone True "''room''"]
    send_frame_fields
    [of "\<lparr>channel = ''websocket.receive'', content = [(''text'', PStr ''x'')]\<rparr>"
      "PStr ''a''" PNone False "''room''"]
  by (simp add: reply_channel_def)

section \<open>Binary frames at the JSON consumer\<close>

text \<open>
  The claim C6 as stated fails on the class of the exception: a frame with no text section
  is refused with a plain \<^verbatim>\<open>ValueError\<close>, the class of the routing and send errors,
  not with the decode error of the JSON library.
\<close>

theorem json_binary_frame_counterexample:
  "json_raw_receive ref_loads json_receive
     \<lparr>channel = ''websocket.receive'',
      content = [(''reply_channel'', PStr ''reply!1''), (''bytes'', PBytes ''ab'')]\<rparr> []
   = ([], Inl (ValueError ''No text section for incoming WebSocket frame!''))
   \<and> \<not> is_decode_error (snd (json_raw_receive ref_loads json_receive
     \<lparr>channel = ''websocket.receive'',
      content = [(''reply_channel'', PStr ''reply!1''), (''bytes'', PBytes ''ab'')]\<rparr> []))"
  by (simp add: json_raw_receive_def message_contains_def dict_contains_def)

text \<open>
  C6, amended. For every inbound frame without a text section, \<^verbatim>\<open>raw_receive\<close> of the
  JSON consumer fails with the \<^verbatim>\<open>ValueError\<close> "No text section for incoming WebSocket
  frame!"; it has no effect before that: \<^verbatim>\<open>json.loads\<close> is not called on the binary data
  and \<^verbatim>\<open>receive\<close> is not called, whatever the JSON library and the \<^verbatim>\<open>receive\<close> of the
  subclass are.
\<close>

theorem json_binary_frame_rejected:
  "\<not> message_contains msg ''text'' \<Longrightarrow>
   json_raw_receive loads receive msg kwargs
     = ([], Inl (ValueError ''No text section for incoming WebSocket frame!''))"
  by (simp add: json_raw_receive_def)

theorem json_binary_frame_rejected_witness:
  "json_raw_receive ref_loads json_receive
     \<lparr>channel = ''websocket.receive'',
      content = [(''reply_channel'', PStr ''reply!1''), (''bytes'', PBytes ''ab'')]\<rparr> []
   = ([], Inl (ValueError ''No text section for incoming WebSocket frame!''))"
  by (rule json_binary_frame_rejected) (simp add: message_contains_def dict_contains_def)

section \<open>Group membership over a connection's life\<close>

lemma foldl_group_add:
  "foldl group_effect members (map (\<lambda>g. GroupAdd g c) gs) g
     = (if g \<in> set gs then insert c (members g) else members g)"
  by (induction gs arbitrary: members) auto

lemma foldl_group_discard:
  "foldl group_effect members (map (\<lambda>g. GroupDiscard g c) gs) g
     = (if g \<in> set gs then members g - {c} else members g)"
  by (induction gs arbitrary: members) auto

text \<open>
  C7. Let \<^verbatim>\<open>connection_groups\<close> return the list \<open>gs\<close> (empty, or of any length) for a
  connect and for a disconnect event of one connection, whose reply channel is \<open>rc\<close>.
  Then \<^verbatim>\<open>raw_connect\<close> adds \<open>rc\<close> to every group of \<open>gs\<close> and calls \<^verbatim>\<open>connect\<close> after
  the last join; \<^verbatim>\<open>raw_disconnect\<close> discards \<open>rc\<close> from every group of \<open>gs\<close> and calls
  \<^verbatim>\<open>disconnect\<close> after the last leave. In the group service \<open>rc\<close> is a member of each
  of these groups after the connect and of none of them after the disconnect, and the
  membership of every other group is what it was.
\<close>

theorem connect_disconnect_groups:
  assumes "groups kw1 = gs" and "groups kw2 = gs"
    and "reply_channel m1 = rc" and "reply_channel m2 = rc"
  shows "raw_connect groups m1 kw1 = (map (\<lambda>g. GroupAdd g rc) gs @ [UserConnect m1 kw1], Inr ())
    \<and> raw_disconnect groups m2 kw2
        = (map (\<lambda>g. GroupDiscard g rc) gs @ [UserDisconnect m2 kw2], Inr ())
    \<and> (\<forall>g \<in> set gs. rc \<in> group_effects members (fst (raw_connect groups m1 kw1)) g)
    \<and> (\<forall>g \<in> set gs.
          rc \<notin> group_effects members
                 (fst (raw_connect groups m1 kw1) @ fst (raw_disconnect groups m2 kw2)) g)
    \<and> (\<forall>g. g \<notin> set gs \<longrightarrow>
          group_effects members
            (fst (raw_connect groups m1 kw1) @ fst (raw_disconnect groups m2 kw2)) g = members g)"
  using assms
  by (simp add: raw_connect_def raw_disconnect_def group_effects_def
      foldl_group_add foldl_group_discard)

theorem connect_disconnect_groups_witness:
  "raw_connect (\<lambda>kwargs. [''room'', ''lobby''])
     \<lparr>channel = ''websocket.connect'', content = [(''reply_channel'', PStr ''reply!1'')]\<rparr> []
   = ([GroupAdd ''room'' (PStr ''reply!1''), GroupAdd ''lobby'' (PStr ''reply!1''),
       UserConnect
         \<lparr>channel = ''websocket.connect'', content = [(''reply_channel'', PStr ''reply!1'')]\<rparr> []],
      Inr ())
   \<and> raw_disconnect (\<lambda>kwargs. [''room'', ''lobby''])
     \<lparr>channel = ''websocket.disconnect'', content = [(''reply_channel'', PStr ''reply!1'')]\<rparr> []
   = ([GroupDiscard ''room'' (PStr ''reply!1''), GroupDiscard ''lobby'' (PStr ''reply!1''),
       UserDisconnect
         \<lparr>channel = ''websocket.disconnect'', content = [(''reply_channel'', PStr ''reply!1'')]\<rparr> []],
      Inr ())"
  using connect_disconnect_groups
    [of "\<lambda>kwargs. [''room'', ''lobby'']" "[]" "[''room'', ''lobby'']" "[]"
      "\<lparr>channel = ''websocket.connect'', content = [(''reply_channel'', PStr ''reply!1'')]\<rparr>"
      "PStr ''reply!1''"
      "\<lparr>channel = ''websocket.disconnect'', content = [(''reply_channel'', PStr ''reply!1'')]\<rparr>"]
  by (simp add: reply_channel_def)

section \<open>The path of an event\<close>

text \<open>
  The claim C9 as stated fails on "reads it only once, at connect time":
  \<^verbatim>\<open>get_handler\<close> runs for every event and evaluates \<^verbatim>\<open>message['path']\<close> whatever the
  channel is. Two receive events that differ in their path only leave different paths on
  the consumer, and a disconnect event without a path raises \<^verbatim>\<open>KeyError\<close>.
\<close>

theorem get_handler_path_counterexample:
  "get_handler
     \<lparr>http_user = False, slight_ordering = False, strict_ordering = False,
      channel_session_user = False, path = PNone,
      message = \<lparr>channel = ''websocket.receive'',
        content = [(''reply_channel'', PStr ''reply!1''), (''path'', PStr ''/a''), (''text'', PStr ''x'')]\<rparr>\<rparr>
     \<lparr>channel = ''websocket.receive'',
        content = [(''reply_channel'', PStr ''reply!1''), (''path'', PStr ''/a''), (''text'', PStr ''x'')]\<rparr>
   = Inr (\<lparr>http_user = False, slight_ordering = False, strict_ordering = False,
      channel_session_user = False, path = PStr ''/a'',
      message = \<lparr>channel = ''websocket.receive'',
        content = [(''reply_channel'', PStr ''reply!1''), (''path'', PStr ''/a''), (''text'', PStr ''x'')]\<rparr>\<rparr>, Method ''raw_receive'')
   \<and> get_handler
     \<lparr>http_user = False, slight_ordering = False, strict_ordering = False,
      channel_session_user = False, path = PNone,
      message = \<lparr>channel = ''websocket.receive'',
        content = [(''reply_channel'', PStr ''reply!1''), (''path'', PStr ''/b''), (''text'', PStr ''x'')]\<rparr>\<rparr>
     \<lparr>channel = ''websocket.receive'',
        content = [(''reply_channel'', PStr ''reply!1''), (''path'', PStr ''/b''), (''text'', PStr ''x'')]\<rparr>
   = Inr (\<lparr>http_user = False, slight_ordering = False, strict_ordering = False,
      channel_session_user = False, path = PStr ''/b'',
      message = \<lparr>channel = ''websocket.receive'',
        content = [(''reply_channel'', PStr ''reply!1''), (''path'', PStr ''/b''), (''text'', PStr ''x'')]\<rparr>\<rparr>, Method ''raw_receive'')
   \<and> get_handler
     \<lparr>http_user = False, slight_ordering = False, strict_ordering = False,
      channel_session_user = False, path = PNone,
      message = \<lparr>channel = ''websocket.disconnect'',
        content = [(''reply_channel'', PStr ''reply!1'')]\<rparr>\<rparr>
     \<lparr>channel = ''websocket.disconnect'',
        content = [(''reply_channel'', PStr ''reply!1'')]\<rparr>
   = Inl (KeyError ''path'')"
  by (simp add: get_handler_def message_getitem_def dict_getitem_def base_get_handler_def
      method_mapping_def)

text \<open>
  C9, amended. The core never modifies the path of an event: \<^verbatim>\<open>get_handler\<close> changes
  attributes of the consumer, but the event the consumer holds is after the call what it
  was before. \<^verbatim>\<open>get_handler\<close> reads the path on every event it dispatches, connect,
  receive and disconnect alike: the path of the event becomes the \<^verbatim>\<open>path\<close> of the
  consumer, and an event without a path fails with \<^verbatim>\<open>KeyError\<close>.
\<close>

theorem get_handler_reads_path:
  assumes "channel msg \<in> {''websocket.connect'', ''websocket.receive'', ''websocket.disconnect''}"
  shows "(\<forall>p. map_of (content msg) ''path'' = Some p \<longrightarrow>
            (\<exists>self' h. get_handler self msg = Inr (self', h) \<and> path self' = p \<and>
               message self' = message self))
       \<and> (map_of (content msg) ''path'' = None \<longrightarrow> get_handler self msg = Inl (KeyError ''path''))
       \<and> (\<forall>self' h. get_handler self msg = Inr (self', h) \<longrightarrow>
             message self' = message self \<and>
             (message self = msg \<longrightarrow>
                map_of (content (message self')) ''path'' = map_of (content msg) ''path''))"
  using assms
  by (auto simp: get_handler_def message_getitem_def dict_getitem_def base_get_handler_def
      method_mapping_def Let_def split: option.splits if_splits)

theorem get_handler_reads_path_witness:
  "\<exists>self' h. get_handler
     \<lparr>http_user = True, slight_ordering = False, strict_ordering = True,
      channel_session_user = False, path = PNone,
      message = \<lparr>channel = ''websocket.disconnect'',
        content = [(''reply_channel'', PStr ''reply!1''), (''path'', PStr ''/chat/'')]\<rparr>\<rparr>
     \<lparr>channel = ''websocket.disconnect'',
        content = [(''reply_channel'', PStr ''reply!1''), (''path'', PStr ''/chat/'')]\<rparr>
     = Inr (self', h) \<and> path self' = PStr ''/chat/'' \<and>
       message self' = \<lparr>channel = ''websocket.disconnect'',
        content = [(''reply_channel'', PStr ''reply!1''), (''path'', PStr ''/chat/'')]\<rparr>"
  using get_handler_reads_path
    [of "\<lparr>channel = ''websocket.disconnect'',
        content = [(''reply_channel'', PStr ''reply!1''), (''path'', PStr ''/chat/'')]\<rparr>"
      "\<lparr>http_user = True, slight_ordering = False, strict_ordering = True,
      channel_session_user = False, path = PNone,
      message = \<lparr>channel = ''websocket.disconnect'',
        content = [(''reply_channel'', PStr ''reply!1''), (''path'', PStr ''/chat/'')]\<rparr>\<rparr>"]
  by simp

section \<open>Strict ordering\<close>

declare release.simps [simp del]

lemma release_spec:
  "release n buf = (out, n', buf') \<Longrightarrow>
     out = [n..<n'] \<and> n \<le> n' \<and> n' \<notin> set buf' \<and> mset buf = mset out + mset buf'"
proof (induction n buf arbitrary: out n' buf' rule: release.induct)
  case (1 n buf)
  show ?case
  proof (cases "n \<in> set buf")
    case False
    with "1.prems" show ?thesis
      by (simp add: release.simps [of n buf])
  next
    case True
    obtain o1 n1 b1 where r: "release (Suc n) (remove1 n buf) = (o1, n1, b1)"
      by (cases "release (Suc n) (remove1 n buf)") auto
    from "1.IH" [OF True r] have ih: "o1 = [Suc n..<n1]" "Suc n \<le> n1" "n1 \<notin> set b1"
      "mset (remove1 n buf) = mset o1 + mset b1"
      by simp_all
    from "1.prems" True r have eq: "out = n # o1" "n' = n1" "buf' = b1"
      by (simp_all add: release.simps [of n buf])
    have m: "mset buf = add_mset n (mset (remove1 n buf))"
      using True by simp
    have u: "[n..<n1] = n # [Suc n..<n1]"
      by (rule upt_conv_Cons) (use ih(2) in simp)
    have "out = [n..<n']"
      by (simp only: eq ih(1) u)
    moreover have "n \<le> n'"
      using ih(2) eq(2) by simp
    moreover have "n' \<notin> set buf'"
      using ih(3) eq by simp
    moreover have "mset buf = mset out + mset buf'"
      by (simp only: m ih(4) eq mset.simps union_mset_add_mset_left)
    ultimately show ?thesis
      by blast
  qed
qed

lemma strict_step_spec:
  assumes "expected g \<notin> set (waiting g)"
    and "enforce_ordering slight_policy False g t = (g', out)"
  shows "out = [expected g..<expected g'] \<and> expected g \<le> expected g' \<and>
         expected g' \<notin> set (waiting g') \<and>
         mset out + mset (waiting g') = mset (waiting g) + {#t#}"
proof (cases "t = expected g")
  case False
  with assms show ?thesis
    by (auto simp: enforce_ordering_def)
next
  case True
  obtain o1 n1 b1 where r: "release (Suc t) (waiting g) = (o1, n1, b1)"
    by (cases "release (Suc t) (waiting g)") auto
  from release_spec [OF r] have rs: "o1 = [Suc t..<n1]" "Suc t \<le> n1" "n1 \<notin> set b1"
    "mset (waiting g) = mset o1 + mset b1"
    by simp_all
  from assms(2) True r have eq: "g' = \<lparr>expected = n1, waiting = b1\<rparr>" "out = t # o1"
    by (simp_all add: enforce_ordering_def)
  have u: "[t..<n1] = t # [Suc t..<n1]"
    by (rule upt_conv_Cons) (use rs(2) in simp)
  have "out = [expected g..<expected g']"
    using eq rs(1) u True by simp
  moreover have "expected g \<le> expected g'"
    using eq rs(2) True by simp
  moreover have "expected g' \<notin> set (waiting g')"
    using eq rs(3) by simp
  moreover have "mset out + mset (waiting g') = mset (waiting g) + {#t#}"
    using eq rs(4) by simp
  ultimately show ?thesis
    by blast
qed

lemma strict_deliver_all_spec:
  assumes "expected g \<notin> set (waiting g)"
    and "deliver_all slight_policy (EnforceOrdering h False) g ts = (g', out)"
  shows "out = [expected g..<expected g'] \<and> expected g \<le> expected g' \<and>
         expected g' \<notin> set (waiting g') \<and>
         mset out + mset (waiting g') = mset (waiting g) + mset ts"
  using assms
proof (induction ts arbitrary: g g' out)
  case Nil
  then show ?case by simp
next
  case (Cons t ts)
  obtain g1 o1 where s: "enforce_ordering slight_policy False g t = (g1, o1)"
    by (cases "enforce_ordering slight_policy False g t") auto
  obtain g2 o2 where d: "deliver_all slight_policy (EnforceOrdering h False) g1 ts = (g2, o2)"
    by (cases "deliver_all slight_policy (EnforceOrdering h False) g1 ts") auto
  from Cons.prems(2) s d have eq: "g' = g2" "out = o1 @ o2"
    by simp_all
  from strict_step_spec [OF Cons.prems(1) s]
  have a: "o1 = [expected g..<expected g1]" "expected g \<le> expected g1"
    "expected g1 \<notin> set (waiting g1)"
    "mset o1 + mset (waiting g1) = mset (waiting g) + {#t#}"
    by blast+
  from Cons.IH [OF a(3) d]
  have b: "o2 = [expected g1..<expected g2]" "expected g1 \<le> expected g2"
    "expected g2 \<notin> set (waiting g2)"
    "mset o2 + mset (waiting g2) = mset (waiting g1) + mset ts"
    by blast+
  have "[expected g..<expected g1 + (expected g2 - expected g1)]
      = [expected g..<expected g1] @ [expected g1..<expected g1 + (expected g2 - expected g1)]"
    using a(2) by (rule upt_add_eq_append)
  then have "out = [expected g..<expected g']"
    using eq a(1) b(1,2) by simp
  moreover have "expected g \<le> expected g'"
    using eq a(2) b(2) by simp
  moreover have "expected g' \<notin> set (waiting g')"
    using eq b(3) by simp
  moreover have "mset out + mset (waiting g') = mset (waiting g) + mset (t # ts)"
  proof -
    have "mset out + mset (waiting g') = mset o1 + (mset o2 + mset (waiting g2))"
      using eq by simp
    also have "\<dots> = (mset o1 + mset (waiting g1)) + mset ts"
      by (simp only: b(4) ac_simps)
    also have "\<dots> = mset (waiting g) + mset (t # ts)"
      by (simp only: a(4)) simp
    finally show ?thesis .
  qed
  ultimately show ?case
    by blast
qed

lemma strict_in_order:
  assumes "mset ts = mset [e..<e + n]"
  shows "deliver_all slight_policy (EnforceOrdering h False) \<lparr>expected = e, waiting = []\<rparr> ts
         = (\<lparr>expected = e + n, waiting = []\<rparr>, [e..<e + n])"
proof -
  let ?g = "\<lparr>expected = e, waiting = []\<rparr>"
  obtain g' out where d: "deliver_all slight_policy (EnforceOrdering h False) ?g ts = (g', out)"
    by (cases "deliver_all slight_policy (EnforceOrdering h False) ?g ts") auto
  have "expected ?g \<notin> set (waiting ?g)"
    by simp
  from strict_deliver_all_spec [OF this d]
  have p: "out = [e..<expected g']" "e \<le> expected g'" "expected g' \<notin> set (waiting g')"
    "mset out + mset (waiting g') = mset ts"
    by auto
  let ?k = "expected g'"
  have total: "mset [e..<?k] + mset (waiting g') = mset [e..<e + n]"
    using p(1,4) assms by simp
  have "\<not> ?k < e + n"
  proof
    assume "?k < e + n"
    with p(2) have "?k \<in># mset [e..<e + n]"
      by simp
    with total have "?k \<in># mset [e..<?k] + mset (waiting g')"
      by simp
    with p(3) show False
      by simp
  qed
  moreover have "\<not> e + n < ?k"
  proof
    assume "e + n < ?k"
    then have "e + n \<in># mset [e..<?k] + mset (waiting g')"
      by simp
    with total have "e + n \<in># mset [e..<e + n]"
      by simp
    then show False
      by simp
  qed
  ultimately have k: "?k = e + n"
    by simp
  with total have "waiting g' = []"
    by simp
  with k p(1) d show ?thesis
    by simp
qed

lemma strict_conservation:
  "deliver_all slight_policy (EnforceOrdering h False) g ts = (g', out) \<Longrightarrow>
     mset out + mset (waiting g') = mset (waiting g) + mset ts"
proof (induction ts arbitrary: g g' out)
  case Nil
  then show ?case by simp
next
  case (Cons t ts)
  obtain g1 o1 where s: "enforce_ordering slight_policy False g t = (g1, o1)"
    by (cases "enforce_ordering slight_policy False g t") auto
  obtain g2 o2 where d: "deliver_all slight_policy (EnforceOrdering h False) g1 ts = (g2, o2)"
    by (cases "deliver_all slight_policy (EnforceOrdering h False) g1 ts") auto
  from Cons.prems s d have eq: "g' = g2" "out = o1 @ o2"
    by simp_all
  have a: "mset o1 + mset (waiting g1) = mset (waiting g) + {#t#}"
  proof (cases "t = expected g")
    case False
    with s show ?thesis
      by (auto simp: enforce_ordering_def)
  next
    case True
    obtain r1 n1 b1 where r: "release (Suc t) (waiting g) = (r1, n1, b1)"
      by (cases "release (Suc t) (waiting g)") auto
    from release_spec [OF r] have "mset (waiting g) = mset r1 + mset b1"
      by blast
    with s True r show ?thesis
      by (auto simp: enforce_ordering_def)
  qed
  have b: "mset o2 + mset (waiting g2) = mset (waiting g1) + mset ts"
    using d by (rule Cons.IH)
  have "mset out + mset (waiting g') = mset o1 + (mset o2 + mset (waiting g2))"
    using eq by simp
  also have "\<dots> = (mset o1 + mset (waiting g1)) + mset ts"
    by (simp only: b ac_simps)
  also have "\<dots> = mset (waiting g) + mset (t # ts)"
    by (simp only: a) simp
  finally show ?case .
qed

lemma get_handler_strict:
  assumes "strict_ordering self" and "get_handler self msg = Inr (self', h)"
  shows "\<exists>inner. h = EnforceOrdering inner False"
  using assms
  by (auto simp: get_handler_def Let_def split: sum.splits if_splits)

text \<open>
  C8. Let strict ordering be configured, so that the handler \<^verbatim>\<open>get_handler\<close> returns is
  wrapped by \<^verbatim>\<open>enforce_ordering(handler, slight=False)\<close>, and let the guard of a connection
  expect token 1 with nothing buffered. Messages with the tokens 1, 3, 2 delivered in this
  order are executed in the order 1, 2, 3; so are the messages with the tokens 1, 2, 3 in
  whatever order their deliveries take effect. No message is ever dropped: after any
  deliveries, from any state of the guard, every message delivered or buffered before has
  been executed or is still buffered.
\<close>

theorem strict_ordering_serialises:
  assumes "strict_ordering self" and "get_handler self msg = Inr (self', h)"
  shows "deliver_all slight_policy h \<lparr>expected = 1, waiting = []\<rparr> [1, 3, 2]
           = (\<lparr>expected = 4, waiting = []\<rparr>, [1, 2, 3])
     \<and> (\<forall>ts. mset ts = mset [1, 2, 3] \<longrightarrow>
           deliver_all slight_policy h \<lparr>expected = 1, waiting = []\<rparr> ts
             = (\<lparr>expected = 4, waiting = []\<rparr>, [1, 2, 3]))
     \<and> (\<forall>g ts. mset (snd (deliver_all slight_policy h g ts))
                  + mset (waiting (fst (deliver_all slight_policy h g ts)))
                = mset (waiting g) + mset ts)"
proof -
  from get_handler_strict [OF assms] obtain inner where h: "h = EnforceOrdering inner False"
    by blast
  have three: "[1..<1 + 3] = [1, 2, 3 :: nat]"
    by code_simp
  have perm: "deliver_all slight_policy h \<lparr>expected = 1, waiting = []\<rparr> ts
             = (\<lparr>expected = 4, waiting = []\<rparr>, [1, 2, 3])" if "mset ts = mset [1, 2, 3]" for ts
  proof -
    from that have "mset ts = mset [1..<1 + 3]"
      by (simp only: three)
    from strict_in_order [OF this, of slight_policy inner] show ?thesis
      by (simp only: three h) simp
  qed
  have cons: "mset (snd (deliver_all slight_policy h g ts))
                  + mset (waiting (fst (deliver_all slight_policy h g ts)))
                = mset (waiting g) + mset ts" for g ts
    using strict_conservation [of slight_policy inner g ts] h
    by (cases "deliver_all slight_policy h g ts") simp
  have "mset [1, 3, 2] = mset [1, 2, 3 :: nat]"
    by simp
  from perm [OF this] perm cons show ?thesis
    by blast
qed

theorem strict_ordering_serialises_witness:
  "deliver_all (\<lambda>g t. (g, [t]))
     (EnforceOrdering (Method ''raw_receive'') False) \<lparr>expected = 1, waiting = []\<rparr> [3, 2, 1]
   = (\<lparr>expected = 4, waiting = []\<rparr>, [1, 2, 3])"
proof -
  let ?msg = "\<lparr>channel = ''websocket.receive'',
      content = [(''reply_channel'', PStr ''reply!1''), (''path'', PStr ''/chat/''),
                 (''text'', PStr ''hi''), (''order'', PInt 1)]\<rparr>"
  let ?self = "\<lparr>http_user = False, slight_ordering = False, strict_ordering = True,
      channel_session_user = False, path = PNone, message = ?msg\<rparr>"
  have s: "strict_ordering ?self"
    by simp
  have g: "get_handler ?self msg = Inr (?self\<lparr>path := PStr ''/chat/''\<rparr>,
      EnforceOrdering (Method ''raw_receive'') False)" if "msg = ?msg" for msg
    using that
    by (simp add: get_handler_def message_getitem_def dict_getitem_def base_get_handler_def
        method_mapping_def)
  have m: "mset [3, 2, 1] = mset [1, 2, 3 :: nat]"
    by simp
  from strict_ordering_serialises [OF s g [OF refl], of "\<lambda>g t. (g, [t])", THEN conjunct2,
      THEN conjunct1, rule_format, OF m]
  show ?thesis .
qed

section \<open>The reference codec round-trips\<close>

declare show_nat.simps [simp del]

lemma parse_string_escape: "parse_string (escape s @ dquote # rest) = Some (s, rest)"
  by (induction s) (auto simp: dquote_def backslash_def)

lemma digit_char_props:
  assumes "d < 10"
  shows "is_digit (digit_char d)" and "digit_val (digit_char d) = d"
  using assms by (simp_all add: is_digit_def digit_char_def digit_val_def)

lemma read_nat_show:
  "read_nat acc (show_nat n @ rest) = read_nat (acc * 10 ^ length (show_nat n) + n) rest"
proof (induction n arbitrary: acc rest rule: show_nat.induct)
  case (1 n)
  show ?case
  proof (cases "n < 10")
    case True
    then show ?thesis
      by (simp add: show_nat.simps [of n] digit_char_props mult.commute)
  next
    case False
    have d: "n mod 10 < 10"
      by simp
    have "read_nat acc (show_nat n @ rest)
        = read_nat acc (show_nat (n div 10) @ (digit_char (n mod 10) # rest))"
      using False by (simp add: show_nat.simps [of n])
    also have "\<dots> = read_nat (acc * 10 ^ length (show_nat (n div 10)) + n div 10)
        (digit_char (n mod 10) # rest)"
      using False by (rule "1.IH")
    also have "\<dots> = read_nat (10 * (acc * 10 ^ length (show_nat (n div 10)) + n div 10) + n mod 10)
        rest"
      by (simp add: digit_char_props [OF d])
    also have "10 * (acc * 10 ^ length (show_nat (n div 10)) + n div 10) + n mod 10
        = acc * 10 ^ length (show_nat n) + n"
      using False by (simp add: show_nat.simps [of n] algebra_simps)
    finally show ?thesis .
  qed
qed

lemma read_nat_no_digit: "no_digit rest \<Longrightarrow> read_nat acc rest = (acc, rest)"
  by (cases rest) (simp_all add: no_digit_def)

lemma read_nat_show_all: "no_digit rest \<Longrightarrow> read_nat 0 (show_nat n @ rest) = (n, rest)"
  by (simp add: read_nat_show read_nat_no_digit)

lemma show_nat_head: "\<exists>c cs. show_nat n = c # cs \<and> is_digit c"
proof (induction n rule: show_nat.induct)
  case (1 n)
  show ?case
  proof (cases "n < 10")
    case True
    then show ?thesis
      by (simp add: show_nat.simps [of n] digit_char_props)
  next
    case False
    from "1.IH" [OF False] obtain c cs where "show_nat (n div 10) = c # cs" "is_digit c"
      by blast
    with False show ?thesis
      by (simp add: show_nat.simps [of n])
  qed
qed

lemma parse_int_dumps:
  assumes "no_digit rest"
  shows "parse_int (dumps_text (PInt i) @ rest) = Some (PInt i, rest)"
proof (cases "i < 0")
  case True
  obtain c cs where h: "show_nat (nat (- i)) = c # cs" "is_digit c"
    using show_nat_head by blast
  have "read_nat 0 (c # cs @ rest) = (nat (- i), rest)"
    using read_nat_show_all [OF assms, of "nat (- i)"] h(1) by simp
  with True h show ?thesis
    by (simp add: parse_int_def)
next
  case False
  obtain c cs where h: "show_nat (nat i) = c # cs" "is_digit c"
    using show_nat_head by blast
  have m: "c \<noteq> CHR ''-''"
    using h(2) by (auto simp: is_digit_def)
  have "read_nat 0 (c # cs @ rest) = (nat i, rest)"
    using read_nat_show_all [OF assms, of "nat i"] h(1) by simp
  with False h m show ?thesis
    by (simp add: parse_int_def)
qed

lemma weight_pos: "0 < weight v"
  by (cases v) simp_all

lemma dumps_text_head:
  assumes "json_value v"
  shows "\<exists>c cs. dumps_text v = c # cs \<and> c \<noteq> CHR '']''"
proof (cases v)
  case (PInt i)
  obtain c cs where a: "show_nat (nat (- i)) = c # cs" "is_digit c"
    using show_nat_head by blast
  obtain d ds where b: "show_nat (nat i) = d # ds" "is_digit d"
    using show_nat_head by blast
  have "d \<noteq> CHR '']''"
    using b(2) by (auto simp: is_digit_def)
  with PInt a b show ?thesis
    by simp
qed (use assms in \<open>simp_all add: dquote_def\<close>)

lemma join_head:
  assumes "xs \<noteq> []" and "\<forall>x\<in>set xs. \<exists>c cs. f x = c # cs \<and> c \<noteq> CHR '']''"
  shows "\<exists>c cs. join (map f xs) = c # cs \<and> c \<noteq> CHR '']''"
proof (cases xs)
  case Nil
  with assms show ?thesis by simp
next
  case (Cons x ys)
  with assms(2) obtain c cs where h: "f x = c # cs" "c \<noteq> CHR '']''"
    by auto
  with Cons show ?thesis
    by (cases ys) simp_all
qed

lemma strip_no_digit: "no_digit (CHR '','' # r)" "no_digit (CHR '']'' # r)" "no_digit (CHR ''}'' # r)"
  "no_digit []"
  by (simp_all add: no_digit_def is_digit_def)

lemma parse_items_join:
  assumes "\<forall>x\<in>set xs. \<forall>n rest. weight x \<le> n \<longrightarrow> no_digit rest \<longrightarrow>
             parse_value n (dumps_text x @ rest) = Some (x, rest)"
    and "xs \<noteq> []"
    and "sum_list (map (\<lambda>x. Suc (weight x)) xs) \<le> n"
  shows "parse_items n (join (map dumps_text xs) @ CHR '']'' # rest) = Some (xs, rest)"
  using assms
proof (induction xs arbitrary: n)
  case Nil
  then show ?case by simp
next
  case (Cons x ys)
  from Cons.prems(3) obtain m where n: "n = Suc m" and wx: "weight x \<le> m"
    and wys: "sum_list (map (\<lambda>x. Suc (weight x)) ys) \<le> m"
    by (cases n) auto
  have px: "parse_value m (dumps_text x @ r) = Some (x, r)" if "no_digit r" for r
    using Cons.prems(1) wx that by simp
  show ?case
  proof (cases ys)
    case Nil
    then show ?thesis
      by (simp add: n px strip_no_digit)
  next
    case (Cons y zs)
    have "parse_items m (join (map dumps_text ys) @ CHR '']'' # rest) = Some (ys, rest)"
      using Cons.prems(1) Cons wys by (intro Cons.IH) simp_all
    then show ?thesis
      using Cons by (simp add: n px strip_no_digit)
  qed
qed

lemma parse_pairs_join:
  assumes "\<forall>kv\<in>set kvs. \<forall>n rest. weight (snd kv) \<le> n \<longrightarrow> no_digit rest \<longrightarrow>
             parse_value n (dumps_text (snd kv) @ rest) = Some (snd kv, rest)"
    and "kvs \<noteq> []"
    and "sum_list (map (\<lambda>kv. Suc (weight (snd kv))) kvs) \<le> n"
  shows "parse_pairs n
           (join (map (\<lambda>kv. dquote # escape (fst kv) @ dquote # '': '' @ dumps_text (snd kv)) kvs)
              @ CHR ''}'' # rest)
         = Some (kvs, rest)"
  using assms
proof (induction kvs arbitrary: n)
  case Nil
  then show ?case by simp
next
  case (Cons kv ys)
  obtain k v where kv: "kv = (k, v)"
    by (cases kv)
  from Cons.prems(3) obtain m where n: "n = Suc m" and wx: "weight v \<le> m"
    and wys: "sum_list (map (\<lambda>kv. Suc (weight (snd kv))) ys) \<le> m"
    by (cases n) (auto simp: kv)
  have px: "parse_value m (dumps_text v @ r) = Some (v, r)" if "no_digit r" for r
    using Cons.prems(1) wx that by (simp add: kv)
  have ps: "parse_string (escape k @ dquote # r) = Some (k, r)" for r
    by (rule parse_string_escape)
  show ?case
  proof (cases ys)
    case Nil
    then show ?thesis
      by (simp add: n kv px ps strip_no_digit)
  next
    case (Cons y zs)
    have "parse_pairs m
           (join (map (\<lambda>kv. dquote # escape (fst kv) @ dquote # '': '' @ dumps_text (snd kv)) ys)
              @ CHR ''}'' # rest) = Some (ys, rest)"
      using Cons.prems(1) Cons wys by (intro Cons.IH) simp_all
    then show ?thesis
      using Cons by (simp add: n kv px ps strip_no_digit)
  qed
qed

lemma parse_value_dumps:
  "json_value v \<Longrightarrow> weight v \<le> n \<Longrightarrow> no_digit rest \<Longrightarrow>
     parse_value n (dumps_text v @ rest) = Some (v, rest)"
proof (induction v arbitrary: n rest)
  case PNone
  then show ?case by (cases n) (simp_all add: dquote_def)
next
  case (PBool b)
  then show ?case by (cases n) (simp_all add: dquote_def)
next
  case (PInt i)
  from PInt.prems(2) obtain m where n: "n = Suc m"
    by (cases n) auto
  obtain c cs where h: "dumps_text (PInt i) = c # cs"
    "c = CHR ''-'' \<or> is_digit c"
    using show_nat_head [of "nat i"] show_nat_head [of "nat (- i)"] by (cases "i < 0") auto
  have ne: "c \<noteq> CHR ''n''" "c \<noteq> CHR ''t''" "c \<noteq> CHR ''f''" "c \<noteq> dquote" "c \<noteq> CHR ''[''"
    "c \<noteq> CHR ''{''"
    using h(2) by (auto simp: is_digit_def dquote_def)
  have "parse_value (Suc m) (c # cs @ rest) = parse_int (c # cs @ rest)"
    using ne by simp
  also have "\<dots> = parse_int (dumps_text (PInt i) @ rest)"
    using h(1) by simp
  also have "\<dots> = Some (PInt i, rest)"
    using PInt.prems(3) by (rule parse_int_dumps)
  finally show ?case
    using h(1) n by simp
next
  case (PStr s)
  then show ?case
    by (cases n) (simp_all add: parse_string_escape, simp add: dquote_def)
next
  case (PBytes b)
  then show ?case by simp
next
  case (PList xs)
  from PList.prems(2) obtain m where n: "n = Suc m"
    and w: "sum_list (map (\<lambda>x. Suc (weight x)) xs) \<le> m"
    by (cases n) auto
  show ?case
  proof (cases "xs = []")
    case True
    then show ?thesis
      by (simp add: n dquote_def)
  next
    case False
    have ok: "\<forall>x\<in>set xs. json_value x"
      using PList.prems(1) by (simp add: list_all_iff)
    have ih: "\<forall>x\<in>set xs. \<forall>n rest. weight x \<le> n \<longrightarrow> no_digit rest \<longrightarrow>
             parse_value n (dumps_text x @ rest) = Some (x, rest)"
      using PList.IH ok by blast
    have items: "parse_items m (join (map dumps_text xs) @ CHR '']'' # rest) = Some (xs, rest)"
      using ih False w by (rule parse_items_join)
    have "\<forall>x\<in>set xs. \<exists>c cs. dumps_text x = c # cs \<and> c \<noteq> CHR '']''"
      using ok dumps_text_head by blast
    with False obtain c cs where h: "join (map dumps_text xs) = c # cs" "c \<noteq> CHR '']''"
      using join_head [of xs dumps_text] by blast
    have "strip_prefix '']'' (join (map dumps_text xs) @ CHR '']'' # rest) = None"
      using h by simp
    with items show ?thesis
      by (simp add: n dquote_def)
  qed
next
  case (PDict kvs)
  from PDict.prems(2) obtain m where n: "n = Suc m"
    and w: "sum_list (map (\<lambda>kv. Suc (weight (snd kv))) kvs) \<le> m"
    by (cases n) auto
  let ?pair = "\<lambda>kv. dquote # escape (fst kv) @ dquote # '': '' @ dumps_text (snd kv)"
  show ?case
  proof (cases "kvs = []")
    case True
    then show ?thesis
      by (simp add: n dquote_def)
  next
    case False
    have ok: "\<forall>kv\<in>set kvs. json_value (snd kv)"
      using PDict.prems(1) by (simp add: list_all_iff)
    have ih: "\<forall>kv\<in>set kvs. \<forall>n rest. weight (snd kv) \<le> n \<longrightarrow> no_digit rest \<longrightarrow>
             parse_value n (dumps_text (snd kv) @ rest) = Some (snd kv, rest)"
    proof (intro ballI allI impI)
      fix kv n rest
      assume a: "kv \<in> set kvs" "weight (snd kv) \<le> n" "no_digit rest"
      have "snd kv \<in> Basic_BNFs.snds kv"
        by (cases kv) simp
      from PDict.IH [OF a(1) this _ a(2,3)] ok a(1)
      show "parse_value n (dumps_text (snd kv) @ rest) = Some (snd kv, rest)"
        by blast
    qed
    have pairs: "parse_pairs m (join (map ?pair kvs) @ CHR ''}'' # rest) = Some (kvs, rest)"
      using ih False w by (rule parse_pairs_join)
    have "\<forall>kv\<in>set kvs. \<exists>c cs. ?pair kv = c # cs \<and> c \<noteq> CHR '']''"
      by (simp add: dquote_def)
    with False obtain c cs where h: "join (map ?pair kvs) = c # cs"
      using join_head [of kvs ?pair] by blast
    from False obtain kv ys where "kvs = kv # ys"
      by (cases kvs) auto
    then have "c = dquote"
      using h by (cases ys) simp_all
    then have "strip_prefix ''}'' (join (map ?pair kvs) @ CHR ''}'' # rest) = None"
      using h by (simp add: dquote_def)
    with pairs show ?thesis
      by (simp add: n dquote_def)
  qed
qed

lemma length_join_bound:
  assumes "xs \<noteq> []" and "\<forall>x\<in>set xs. w x \<le> length (f x)"
  shows "Suc (sum_list (map (\<lambda>x. Suc (w x)) xs)) \<le> length (join (map f xs)) + 2"
  using assms
proof (induction xs)
  case Nil
  then show ?case by simp
next
  case (Cons x ys)
  show ?case
  proof (cases ys)
    case Nil
    with Cons.prems show ?thesis by simp
  next
    case (Cons y zs)
    then have "Suc (sum_list (map (\<lambda>x. Suc (w x)) ys)) \<le> length (join (map f ys)) + 2"
      using Cons.prems Cons.IH by simp
    moreover have "w x \<le> length (f x)"
      using Cons.prems by simp
    ultimately show ?thesis
      using Cons by simp
  qed
qed

lemma weight_le_length: "json_value v \<Longrightarrow> weight v \<le> length (dumps_text v)"
proof (induction v)
  case (PInt i)
  obtain c cs where "show_nat (nat (- i)) = c # cs"
    using show_nat_head by blast
  moreover obtain d ds where "show_nat (nat i) = d # ds"
    using show_nat_head by blast
  ultimately show ?case by simp
next
  case (PList xs)
  show ?case
  proof (cases "xs = []")
    case True
    then show ?thesis by simp
  next
    case False
    have "\<forall>x\<in>set xs. weight x \<le> length (dumps_text x)"
      using PList by (simp add: list_all_iff)
    from length_join_bound [OF False this] show ?thesis
      by simp
  qed
next
  case (PDict kvs)
  let ?pair = "\<lambda>kv. dquote # escape (fst kv) @ dquote # '': '' @ dumps_text (snd kv)"
  show ?case
  proof (cases "kvs = []")
    case True
    then show ?thesis by simp
  next
    case False
    have "\<forall>kv\<in>set kvs. weight (snd kv) \<le> length (?pair kv)"
    proof
      fix kv
      assume a: "kv \<in> set kvs"
      have "snd kv \<in> Basic_BNFs.snds kv"
        by (cases kv) simp
      from PDict.IH [OF a this] PDict.prems a
      have "weight (snd kv) \<le> length (dumps_text (snd kv))"
        by (simp add: list_all_iff)
      then show "weight (snd kv) \<le> length (?pair kv)"
        by simp
    qed
    from length_join_bound [OF False this] show ?thesis
      by simp
  qed
qed simp_all

lemma ref_codec_roundtrip:
  assumes "json_value v"
  shows "\<exists>t. ref_dumps v = Inr t \<and> ref_loads (PStr t) = Inr v"
proof -
  have "parse_value (length (dumps_text v)) (dumps_text v @ []) = Some (v, [])"
    using assms weight_le_length [OF assms] by (intro parse_value_dumps) (simp_all add: no_digit_def)
  then show ?thesis
    using assms by (simp add: ref_dumps_def ref_loads_def)
qed

section \<open>Round trip of the demultiplexer's encoding\<close>

text \<open>
  C5. Let the JSON library round-trip every JSON-representable value: \<^verbatim>\<open>json.dumps\<close>
  succeeds on it and \<^verbatim>\<open>json.loads\<close> of the text gives the value back. Then for every
  stream name and every JSON-representable payload, \<^verbatim>\<open>encode(stream, payload)\<close> is a
  frame with the one field \<^verbatim>\<open>text\<close>, and decoding that text gives exactly the object
  \<^verbatim>\<open>{"stream": stream, "payload": payload}\<close>.
\<close>

theorem encode_roundtrip:
  assumes "\<forall>v. json_value v \<longrightarrow> (\<exists>t. dumps v = Inr t \<and> loads (PStr t) = Inr v)"
    and "json_value payload"
  shows "\<exists>t. encode dumps (PStr stream) payload = Inr [(''text'', PStr t)] \<and>
             loads (PStr t) = Inr (PDict [(''stream'', PStr stream), (''payload'', payload)])"
proof -
  let ?envelope = "PDict [(''stream'', PStr stream), (''payload'', payload)]"
  have "json_value ?envelope"
    using assms(2) by simp
  with assms(1) obtain t where "dumps ?envelope = Inr t" "loads (PStr t) = Inr ?envelope"
    by blast
  then show ?thesis
    by (simp add: encode_def)
qed

theorem encode_roundtrip_witness:
  "\<exists>t. encode ref_dumps (PStr ''chat'')
          (PDict [(''msg'', PStr ''hi''), (''seen'', PList [PInt 12, PInt (- 3), PNone, PBool True])])
        = Inr [(''text'', PStr t)] \<and>
       ref_loads (PStr t)
        = Inr (PDict [(''stream'', PStr ''chat''),
                      (''payload'', PDict [(''msg'', PStr ''hi''),
                         (''seen'', PList [PInt 12, PInt (- 3), PNone, PBool True])])])"
proof -
  have lib: "\<forall>v. json_value v \<longrightarrow> (\<exists>t. ref_dumps v = Inr t \<and> ref_loads (PStr t) = Inr v)"
    using ref_codec_roundtrip by blast
  have ok: "json_value
      (PDict [(''msg'', PStr ''hi''), (''seen'', PList [PInt 12, PInt (- 3), PNone, PBool True])])"
    by simp
  from encode_roundtrip [OF lib ok] show ?thesis .
qed

end
